theory Spec2Isabelle
  imports Main
begin

section \<open>Pieces (chess/pieces.py)\<close>

text \<open>
  A \<^verbatim>\<open>Piece\<close> object has a class (its kind), a colour that \<^verbatim>\<open>Piece.__init__\<close>
  restricts to \<^verbatim>\<open>'white'\<close> or \<^verbatim>\<open>'black'\<close>, and a mutable \<^verbatim>\<open>has_moved\<close> attribute.
  Piece objects are shared between the board and the move history and are compared by
  identity (\<^verbatim>\<open>move.piece == last_move.piece\<close>; no \<^verbatim>\<open>__eq__\<close> is defined), so a piece
  carries its identity \<open>pid\<close>, and the \<^verbatim>\<open>has_moved\<close> attributes live in a store indexed by
  identity (field \<open>has_moved\<close> of the game below). The attributes \<^verbatim>\<open>value\<close>, \<^verbatim>\<open>captured\<close>
  and \<^verbatim>\<open>texture\<close> are never read or written by the rules engine and are left out.
\<close>

datatype color = White | Black

datatype kind = Pawn | Knight | Bishop | Rook | Queen | King

record piece =
  pid :: nat
  kind :: kind
  color :: color

type_synonym pos = "int \<times> int"

text \<open>
  The board is the dictionary \<^verbatim>\<open>Dict[Tuple[int, int], Optional[Piece]]\<close> read through
  \<^verbatim>\<open>board.get\<close>: a square without a piece gives \<open>None\<close>. \<^verbatim>\<open>create_board\<close> gives the
  dictionary one key for each of the 64 squares, and the engine writes only at squares
  that hold a piece or that a move generator produced, so the keys stay these 64 squares;
  iterating \<^verbatim>\<open>board.items()\<close> is iterating \<open>all_squares\<close> below.
\<close>

type_synonym board = "pos \<Rightarrow> piece option"

definition BOARD_SIZE :: int where
  "BOARD_SIZE = 8"

definition is_valid_position :: "int \<Rightarrow> int \<Rightarrow> bool" where
  "is_valid_position row col \<longleftrightarrow> 0 \<le> row \<and> row < BOARD_SIZE \<and> 0 \<le> col \<and> col < BOARD_SIZE"

definition is_enemy_piece :: "color \<Rightarrow> piece option \<Rightarrow> bool" where
  "is_enemy_piece self_color p = (case p of None \<Rightarrow> False | Some q \<Rightarrow> color q \<noteq> self_color)"

definition is_empty_square :: "piece option \<Rightarrow> bool" where
  "is_empty_square p \<longleftrightarrow> p = None"

text \<open>\<^verbatim>\<open>Pawn.possible_moves\<close>.\<close>

definition pawn_possible_moves :: "color \<Rightarrow> pos \<Rightarrow> board \<Rightarrow> pos list" where
  "pawn_possible_moves c piece_position b =
     (let row = fst piece_position; col = snd piece_position;
          direction = (if c = Black then 1 else -1);
          start_row = (if c = Black then 1 else 6);
          forward_one = (row + direction, col);
          forward_two = (row + 2 * direction, col);
          forward =
            (if is_valid_position (fst forward_one) (snd forward_one)
                \<and> is_empty_square (b forward_one)
             then forward_one #
               (if row = start_row
                   \<and> is_valid_position (fst forward_two) (snd forward_two)
                   \<and> is_empty_square (b forward_two)
                then [forward_two] else [])
             else []);
          captures =
            filter (\<lambda>capture_pos. is_valid_position (fst capture_pos) (snd capture_pos)
                      \<and> is_enemy_piece c (b capture_pos))
              (map (\<lambda>col_offset. (row + direction, col + col_offset)) [-1, 1])
      in forward @ captures)"

text \<open>
  \<^verbatim>\<open>Knight.possible_moves\<close> and \<^verbatim>\<open>King.possible_moves\<close> have the same loop over a list
  of offsets: a target on the board that is empty or holds an enemy piece is kept.
\<close>

definition offset_moves :: "(int \<times> int) list \<Rightarrow> color \<Rightarrow> pos \<Rightarrow> board \<Rightarrow> pos list" where
  "offset_moves offsets c piece_position b =
     filter (\<lambda>new_pos. is_valid_position (fst new_pos) (snd new_pos)
               \<and> (is_empty_square (b new_pos) \<or> is_enemy_piece c (b new_pos)))
       (map (\<lambda>d. (fst piece_position + fst d, snd piece_position + snd d)) offsets)"

definition knight_moves :: "(int \<times> int) list" where
  "knight_moves = [(2, 1), (2, -1), (-2, 1), (-2, -1), (1, 2), (1, -2), (-1, 2), (-1, -2)]"

definition king_directions :: "(int \<times> int) list" where
  "king_directions = [(1, 0), (0, 1), (0, -1), (-1, 0), (-1, -1), (1, -1), (-1, 1), (1, 1)]"

text \<open>
  The \<^verbatim>\<open>while True\<close> loop of \<^verbatim>\<open>Rook._get_line_moves\<close>, \<^verbatim>\<open>Bishop._get_diagonal_moves\<close>
  and \<^verbatim>\<open>Queen.possible_moves\<close> (three copies of one body): step from the current square
  in direction \<open>(dr, dc)\<close> until the edge, an own piece (excluded) or an enemy piece
  (included). Every direction in the source's lists is non-zero; the test
  \<open>dr = 0 \<and> dc = 0\<close> is not in the source and only makes the recursion total.
\<close>

function line_moves :: "board \<Rightarrow> color \<Rightarrow> int \<Rightarrow> int \<Rightarrow> int \<Rightarrow> int \<Rightarrow> pos list" where
  "line_moves b c dr dc current_row current_col =
     (if \<not> is_valid_position (current_row + dr) (current_col + dc) \<or> (dr = 0 \<and> dc = 0)
      then []
      else (case b (current_row + dr, current_col + dc) of
              None \<Rightarrow> (current_row + dr, current_col + dc)
                        # line_moves b c dr dc (current_row + dr) (current_col + dc)
            | Some target_piece \<Rightarrow>
                if color target_piece \<noteq> c then [(current_row + dr, current_col + dc)] else []))"
  by pat_completeness auto
termination
  by (relation "measure (\<lambda>(b, c, dr, dc, row, col).
        if 0 < dr then nat (8 - row) else if dr < 0 then nat (row + 1)
        else if 0 < dc then nat (8 - col) else nat (col + 1))")
     (auto simp: is_valid_position_def BOARD_SIZE_def)

definition get_line_moves :: "(int \<times> int) list \<Rightarrow> color \<Rightarrow> pos \<Rightarrow> board \<Rightarrow> pos list" where
  "get_line_moves directions c piece_position b =
     concat (map (\<lambda>d. line_moves b c (fst d) (snd d) (fst piece_position) (snd piece_position))
               directions)"

definition rook_directions :: "(int \<times> int) list" where
  "rook_directions = [(0, 1), (1, 0), (-1, 0), (0, -1)]"

definition diagonal_directions :: "(int \<times> int) list" where
  "diagonal_directions = [(1, 1), (-1, -1), (-1, 1), (1, -1)]"

definition all_directions :: "(int \<times> int) list" where
  "all_directions = [(1, 0), (0, 1), (0, -1), (-1, 0), (-1, -1), (1, -1), (-1, 1), (1, 1)]"

text \<open>The method \<^verbatim>\<open>possible_moves\<close>, dispatched on the class of the piece.\<close>

definition possible_moves :: "piece \<Rightarrow> pos \<Rightarrow> board \<Rightarrow> pos list" where
  "possible_moves p piece_position b =
     (case kind p of
        Pawn \<Rightarrow> pawn_possible_moves (color p) piece_position b
      | Knight \<Rightarrow> offset_moves knight_moves (color p) piece_position b
      | Bishop \<Rightarrow> get_line_moves diagonal_directions (color p) piece_position b
      | Rook \<Rightarrow> get_line_moves rook_directions (color p) piece_position b
      | Queen \<Rightarrow> get_line_moves all_directions (color p) piece_position b
      | King \<Rightarrow> offset_moves king_directions (color p) piece_position b)"

section \<open>The game (chess/game.py)\<close>

datatype GameState = ACTIVE | CHECK | CHECKMATE | STALEMATE | DRAW

datatype side = Kingside | Queenside

datatype error = KeyError | NameError | AttributeError

record move =
  from_pos :: pos
  to_pos :: pos
  piece :: piece
  captured_piece :: "piece option"
  is_castling :: bool
  is_en_passant :: bool
  is_promotion :: bool
  promoted_to :: "string option"

text \<open>The dictionary \<^verbatim>\<open>castling_rights\<close> with its four fixed keys.\<close>

record castling =
  white_kingside :: bool
  white_queenside :: bool
  black_kingside :: bool
  black_queenside :: bool

record game =
  current_turn :: color
  move_history :: "move list"
  board :: board
  game_state :: GameState
  white_king_pos :: pos
  black_king_pos :: pos
  castling_rights :: castling
  en_passant_target :: "pos option"
  halfmove_clock :: int
  fullmove_number :: int
  has_moved :: "nat \<Rightarrow> bool"

definition all_squares :: "pos list" where
  "all_squares = concat (map (\<lambda>row. map (\<lambda>col. (row, col)) [0..7]) [0..7])"

definition piece_order :: "kind list" where
  "piece_order = [Rook, Knight, Bishop, Queen, King, Bishop, Knight, Rook]"

text \<open>
  \<^verbatim>\<open>Game.create_board\<close>. Each of the 32 pieces is a new object; its identity is taken
  from the square it is created on.
\<close>

definition create_board :: board where
  "create_board = (\<lambda>(row, col).
     if \<not> is_valid_position row col then None
     else if row = 0 then Some \<lparr>pid = nat (row * 8 + col), kind = piece_order ! nat col, color = Black\<rparr>
     else if row = 1 then Some \<lparr>pid = nat (row * 8 + col), kind = Pawn, color = Black\<rparr>
     else if row = 6 then Some \<lparr>pid = nat (row * 8 + col), kind = Pawn, color = White\<rparr>
     else if row = 7 then Some \<lparr>pid = nat (row * 8 + col), kind = piece_order ! nat col, color = White\<rparr>
     else None)"

text \<open>\<^verbatim>\<open>Game.__init__\<close>; \<^verbatim>\<open>Game.new_game\<close> assigns the same values again.\<close>

definition initial_game :: game where
  "initial_game =
     \<lparr>current_turn = White, move_history = [], board = create_board, game_state = ACTIVE,
      white_king_pos = (7, 4), black_king_pos = (0, 4),
      castling_rights = \<lparr>white_kingside = True, white_queenside = True,
                         black_kingside = True, black_queenside = True\<rparr>,
      en_passant_target = None, halfmove_clock = 0, fullmove_number = 1,
      has_moved = (\<lambda>_. False)\<rparr>"

definition new_game :: "game \<Rightarrow> game" where
  "new_game g = initial_game"

definition get_piece :: "game \<Rightarrow> pos \<Rightarrow> piece option" where
  "get_piece g position = board g position"

definition is_square_empty :: "game \<Rightarrow> pos \<Rightarrow> bool" where
  "is_square_empty g position \<longleftrightarrow> get_piece g position = None"

definition enemy_color :: "color \<Rightarrow> color" where
  "enemy_color c = (if c = White then Black else White)"

definition get_king_position :: "game \<Rightarrow> color \<Rightarrow> pos" where
  "get_king_position g c = (if c = White then white_king_pos g else black_king_pos g)"

definition update_king_position :: "game \<Rightarrow> color \<Rightarrow> pos \<Rightarrow> game" where
  "update_king_position g c new_position =
     (if c = White then g\<lparr>white_king_pos := new_position\<rparr>
      else g\<lparr>black_king_pos := new_position\<rparr>)"

definition is_square_under_attack :: "game \<Rightarrow> pos \<Rightarrow> color \<Rightarrow> bool" where
  "is_square_under_attack g position by_color =
     list_ex (\<lambda>board_pos.
        case board g board_pos of
          None \<Rightarrow> False
        | Some p \<Rightarrow> color p = by_color \<and> position \<in> set (possible_moves p board_pos (board g)))
       all_squares"

definition is_in_check :: "game \<Rightarrow> color \<Rightarrow> bool" where
  "is_in_check g c = is_square_under_attack g (get_king_position g c) (enemy_color c)"

definition get_all_possible_moves :: "game \<Rightarrow> color \<Rightarrow> (pos \<times> pos) list" where
  "get_all_possible_moves g c =
     concat (map (\<lambda>position.
        case board g position of
          None \<Rightarrow> []
        | Some p \<Rightarrow> if color p = c
                    then map (\<lambda>m. (position, m)) (possible_moves p position (board g))
                    else [])
       all_squares)"

text \<open>
  \<^verbatim>\<open>simulate_move\<close> works on a deep copy; the copy is the new value of the board
  function, and the original is untouched.
\<close>

definition simulate_move :: "game \<Rightarrow> pos \<Rightarrow> pos \<Rightarrow> board" where
  "simulate_move g from_p to_p = ((board g)(to_p := board g from_p))(from_p := None)"

definition isinstance :: "piece option \<Rightarrow> kind \<Rightarrow> bool" where
  "isinstance p k = (case p of None \<Rightarrow> False | Some q \<Rightarrow> kind q = k)"

text \<open>
  \<^verbatim>\<open>is_legal_move\<close> assigns the simulated board and the king's target square to the
  game, asks \<^verbatim>\<open>is_in_check\<close>, and assigns the saved values back. The model performs the
  same assignments and returns the game as it is left.
\<close>

definition is_legal_move :: "game \<Rightarrow> pos \<Rightarrow> pos \<Rightarrow> bool \<times> game" where
  "is_legal_move g from_p to_p =
     (case get_piece g from_p of
        None \<Rightarrow> (False, g)
      | Some p \<Rightarrow>
          if color p \<noteq> current_turn g then (False, g)
          else if to_p \<notin> set (possible_moves p from_p (board g)) then (False, g)
          else
            let original_board = board g;
                g1 = g\<lparr>board := simulate_move g from_p to_p\<rparr>;
                original_king_pos =
                  (if kind p = King then Some (get_king_position g1 (color p)) else None);
                g2 = (if kind p = King then update_king_position g1 (color p) to_p else g1);
                in_check = is_in_check g2 (color p);
                g3 = g2\<lparr>board := original_board\<rparr>;
                g4 = (case original_king_pos of
                        None \<Rightarrow> g3
                      | Some k \<Rightarrow> update_king_position g3 (color p) k)
            in (\<not> in_check, g4))"

text \<open>The loop of \<^verbatim>\<open>get_legal_moves\<close>, threading the game through every call.\<close>

fun legal_moves_loop ::
  "game \<Rightarrow> (pos \<times> pos) list \<Rightarrow> (pos \<times> pos) list \<Rightarrow> (pos \<times> pos) list \<times> game" where
  "legal_moves_loop g [] legal_moves = (legal_moves, g)"
| "legal_moves_loop g (m # all_moves) legal_moves =
     (let r = is_legal_move g (fst m) (snd m)
      in legal_moves_loop (snd r) all_moves
           (if fst r then legal_moves @ [m] else legal_moves))"

definition get_legal_moves :: "game \<Rightarrow> color \<Rightarrow> (pos \<times> pos) list \<times> game" where
  "get_legal_moves g c = legal_moves_loop g (get_all_possible_moves g c) []"

definition is_checkmate :: "game \<Rightarrow> color \<Rightarrow> bool \<times> game" where
  "is_checkmate g c =
     (if \<not> is_in_check g c then (False, g)
      else let r = get_legal_moves g c in (length (fst r) = 0, snd r))"

definition is_stalemate :: "game \<Rightarrow> color \<Rightarrow> bool \<times> game" where
  "is_stalemate g c =
     (if is_in_check g c then (False, g)
      else let r = get_legal_moves g c in (length (fst r) = 0, snd r))"

definition castling_right :: "game \<Rightarrow> color \<Rightarrow> side \<Rightarrow> bool" where
  "castling_right g c s =
     (case (c, s) of
        (White, Kingside) \<Rightarrow> white_kingside (castling_rights g)
      | (White, Queenside) \<Rightarrow> white_queenside (castling_rights g)
      | (Black, Kingside) \<Rightarrow> black_kingside (castling_rights g)
      | (Black, Queenside) \<Rightarrow> black_queenside (castling_rights g))"

definition clear_castling_right :: "game \<Rightarrow> color \<Rightarrow> side \<Rightarrow> game" where
  "clear_castling_right g c s =
     (case (c, s) of
        (White, Kingside) \<Rightarrow> g\<lparr>castling_rights := (castling_rights g)\<lparr>white_kingside := False\<rparr>\<rparr>
      | (White, Queenside) \<Rightarrow> g\<lparr>castling_rights := (castling_rights g)\<lparr>white_queenside := False\<rparr>\<rparr>
      | (Black, Kingside) \<Rightarrow> g\<lparr>castling_rights := (castling_rights g)\<lparr>black_kingside := False\<rparr>\<rparr>
      | (Black, Queenside) \<Rightarrow> g\<lparr>castling_rights := (castling_rights g)\<lparr>black_queenside := False\<rparr>\<rparr>)"

definition can_castle :: "game \<Rightarrow> color \<Rightarrow> side \<Rightarrow> bool" where
  "can_castle g c s =
     (if is_in_check g c then False
      else if \<not> castling_right g c s then False
      else
        let row = fst (get_king_position g c) in
        if s = Kingside
        then list_all (\<lambda>col. is_square_empty g (row, col)
                          \<and> \<not> is_square_under_attack g (row, col) (enemy_color c)) [5, 6]
        else list_all (\<lambda>col. is_square_empty g (row, col)) [1, 2, 3]
           \<and> list_all (\<lambda>col. \<not> is_square_under_attack g (row, col) (enemy_color c)) [2, 3])"

definition execute_castling :: "game \<Rightarrow> color \<Rightarrow> side \<Rightarrow> game" where
  "execute_castling g c s =
     (let row = (if c = Black then 0 else 7);
          g1 = (if s = Kingside
                then
                  let b1 = (board g)((row, 6) := board g (row, 4));
                      b2 = b1((row, 4) := None);
                      gk = update_king_position (g\<lparr>board := b2\<rparr>) c (row, 6);
                      b3 = (board gk)((row, 5) := board gk (row, 7));
                      b4 = b3((row, 7) := None)
                  in gk\<lparr>board := b4\<rparr>
                else
                  let b1 = (board g)((row, 2) := board g (row, 4));
                      b2 = b1((row, 4) := None);
                      gk = update_king_position (g\<lparr>board := b2\<rparr>) c (row, 2);
                      b3 = (board gk)((row, 3) := board gk (row, 0));
                      b4 = b3((row, 0) := None)
                  in gk\<lparr>board := b4\<rparr>)
      in clear_castling_right (clear_castling_right g1 c Kingside) c Queenside)"

text \<open>
  \<^verbatim>\<open>Game.is_promotion\<close> (the method; the record field \<open>is_promotion\<close> is the flag of a
  move).
\<close>

definition game_is_promotion :: "game \<Rightarrow> pos \<Rightarrow> pos \<Rightarrow> bool" where
  "game_is_promotion g from_p to_p =
     (case get_piece g from_p of
        None \<Rightarrow> False
      | Some p \<Rightarrow>
          if kind p \<noteq> Pawn then False
          else fst to_p = (if color p = White then 0 else 7))"

text \<open>
  \<^verbatim>\<open>promote_pawn\<close> reads the colour of the piece on the square and calls
  \<^verbatim>\<open>create_piece\<close>. No \<^verbatim>\<open>create_piece\<close> is defined in the program (the definition in
  pieces.py is commented out, and no imported module has one), so the call raises
  \<^verbatim>\<open>NameError\<close>; on an empty square reading \<^verbatim>\<open>.color\<close> raises first.
\<close>

definition promote_pawn :: "game \<Rightarrow> pos \<Rightarrow> string \<Rightarrow> error + game" where
  "promote_pawn g position piece_type =
     (case get_piece g position of
        None \<Rightarrow> Inl AttributeError
      | Some p \<Rightarrow> Inl NameError)"

definition update_game_state :: "game \<Rightarrow> game" where
  "update_game_state g =
     (let r1 = is_checkmate g (current_turn g); g1 = snd r1 in
      if fst r1 then g1\<lparr>game_state := CHECKMATE\<rparr>
      else
        let r2 = is_stalemate g1 (current_turn g1); g2 = snd r2 in
        if fst r2 then g2\<lparr>game_state := STALEMATE\<rparr>
        else if is_in_check g2 (current_turn g2) then g2\<lparr>game_state := CHECK\<rparr>
        else if halfmove_clock g2 \<ge> 100 then g2\<lparr>game_state := DRAW\<rparr>
        else g2\<lparr>game_state := ACTIVE\<rparr>)"

text \<open>
  The part of \<^verbatim>\<open>make_move\<close> after the piece has been relocated (from
  ``Handle pawn promotion'' to the end): \<open>p\<close> is the moved piece, \<open>mv\<close> the move object.
\<close>

definition update_castling_rights :: "game \<Rightarrow> piece \<Rightarrow> pos \<Rightarrow> game" where
  "update_castling_rights g p from_p =
     (if kind p = King
      then clear_castling_right (clear_castling_right g (color p) Kingside) (color p) Queenside
      else if kind p = Rook
      then (if from_p = (0, 0) then clear_castling_right g Black Queenside
            else if from_p = (0, 7) then clear_castling_right g Black Kingside
            else if from_p = (7, 0) then clear_castling_right g White Queenside
            else if from_p = (7, 7) then clear_castling_right g White Kingside
            else g)
      else g)"

definition record_move :: "game \<Rightarrow> piece \<Rightarrow> move \<Rightarrow> game" where
  "record_move g p mv =
     (let g1 = update_castling_rights g p (from_pos mv);
          g2 = g1\<lparr>has_moved := (has_moved g1)(pid p := True)\<rparr>;
          g3 = (if kind p = Pawn \<or> captured_piece mv \<noteq> None
                then g2\<lparr>halfmove_clock := 0\<rparr>
                else g2\<lparr>halfmove_clock := halfmove_clock g2 + 1\<rparr>);
          g4 = (if current_turn g3 = Black
                then g3\<lparr>fullmove_number := fullmove_number g3 + 1\<rparr> else g3);
          g5 = g4\<lparr>move_history := move_history g4 @ [mv]\<rparr>;
          g6 = g5\<lparr>current_turn := (if current_turn g5 = White then Black else White)\<rparr>
      in update_game_state g6)"

definition finish_move :: "game \<Rightarrow> piece \<Rightarrow> move \<Rightarrow> string \<Rightarrow> (error + bool) \<times> game" where
  "finish_move g p mv promotion_piece =
     (if game_is_promotion g (from_pos mv) (to_pos mv)
      then (case promote_pawn g (to_pos mv) promotion_piece of
              Inl e \<Rightarrow> (Inl e, g)
            | Inr g' \<Rightarrow>
                (Inr True,
                 record_move g' p (mv\<lparr>is_promotion := True, promoted_to := Some promotion_piece\<rparr>)))
      else (Inr True, record_move g p mv))"

text \<open>
  \<^verbatim>\<open>make_move\<close>. The result is the returned boolean, or the exception that leaves the
  method, together with the game as the call leaves it.
\<close>

definition make_move :: "game \<Rightarrow> pos \<Rightarrow> pos \<Rightarrow> string \<Rightarrow> (error + bool) \<times> game" where
  "make_move g from_p to_p promotion_piece =
     (let r = is_legal_move g from_p to_p; g0 = snd r in
      if \<not> fst r then (Inr False, g0)
      else
        (case get_piece g0 from_p of
           None \<Rightarrow>
             (Inl AttributeError,
              g0\<lparr>board := ((board g0)(to_p := None))(from_p := None)\<rparr>)
         | Some p \<Rightarrow>
             let captured = get_piece g0 to_p;
                 mv = \<lparr>from_pos = from_p, to_pos = to_p, piece = p, captured_piece = captured,
                       is_castling = False, is_en_passant = False, is_promotion = False,
                       promoted_to = None\<rparr>
             in
             if kind p = King \<and> \<bar>snd to_p - snd from_p\<bar> = 2
             then
               let s = (if snd to_p > snd from_p then Kingside else Queenside) in
               if can_castle g0 (color p) s
               then finish_move (execute_castling g0 (color p) s) p
                      (mv\<lparr>is_castling := True\<rparr>) promotion_piece
               else (Inr False, g0)
             else
               let g1 = g0\<lparr>board := ((board g0)(to_p := Some p))(from_p := None)\<rparr>;
                   g2 = (if kind p = King then update_king_position g1 (color p) to_p else g1)
               in finish_move g2 p mv promotion_piece))"

text \<open>
  \<^verbatim>\<open>undo_move\<close>. The subscript reads \<^verbatim>\<open>self.board[(row, 5)]\<close> and
  \<^verbatim>\<open>self.board[(row, 3)]\<close> raise \<^verbatim>\<open>KeyError\<close> when the row of the recorded move is not
  a row of the board.
\<close>

definition undo_move :: "game \<Rightarrow> (error + bool) \<times> game" where
  "undo_move g =
     (if move_history g = [] then (Inr False, g)
      else
        let last_move = last (move_history g);
            g1 = g\<lparr>move_history := butlast (move_history g)\<rparr>;
            g2 = g1\<lparr>board := (board g1)(from_pos last_move := Some (piece last_move))\<rparr>;
            g3 = g2\<lparr>board := (board g2)(to_pos last_move := captured_piece last_move)\<rparr>;
            row = fst (from_pos last_move)
        in
        if is_castling last_move \<and> \<not> is_valid_position row 5 then (Inl KeyError, g3)
        else
          let g4 = (if is_castling last_move
                    then (if snd (to_pos last_move) = 6
                          then g3\<lparr>board := ((board g3)((row, 7) := board g3 (row, 5)))
                                               ((row, 5) := None)\<rparr>
                          else g3\<lparr>board := ((board g3)((row, 0) := board g3 (row, 3)))
                                               ((row, 3) := None)\<rparr>)
                    else g3);
              g5 = (if kind (piece last_move) = King
                    then update_king_position g4 (color (piece last_move)) (from_pos last_move)
                    else g4);
              g6 = (if length (move_history g5) = 0
                       \<or> \<not> list_ex (\<lambda>m. pid (piece m) = pid (piece last_move)) (move_history g5)
                    then g5\<lparr>has_moved := (has_moved g5)(pid (piece last_move) := False)\<rparr>
                    else g5);
              g7 = g6\<lparr>current_turn := (if current_turn g6 = White then Black else White)\<rparr>
          in (Inr True, update_game_state g7))"

section \<open>The engine configuration (engine/deepcore.py)\<close>

text \<open>
  \<^verbatim>\<open>DeepCore._config\<close> is a dictionary from parameter names to values;
  \<^verbatim>\<open>DeepCore.__init__\<close> gives it the five keys below. \<^verbatim>\<open>config(**kwargs)\<close> walks the
  keyword arguments in the order of the call: a key of the dictionary is overwritten,
  any other key raises \<^verbatim>\<open>KeyError\<close> at once. The result is how the call ends together
  with the dictionary as the call leaves it.
\<close>

datatype config_result = Returned | InvalidConfigKey string

definition DeepCore_init :: "'v \<Rightarrow> 'v \<Rightarrow> 'v \<Rightarrow> 'v \<Rightarrow> 'v \<Rightarrow> (string \<rightharpoonup> 'v)" where
  "DeepCore_init depth threads use_openbook time_limit dev_mode =
     [''depth'' \<mapsto> depth, ''threads'' \<mapsto> threads, ''use_openbook'' \<mapsto> use_openbook,
      ''time_limit'' \<mapsto> time_limit, ''dev_mode'' \<mapsto> dev_mode]"

fun config :: "(string \<rightharpoonup> 'v) \<Rightarrow> (string \<times> 'v) list \<Rightarrow> config_result \<times> (string \<rightharpoonup> 'v)" where
  "config cfg [] = (Returned, cfg)"
| "config cfg (kv # kwargs) =
     (if cfg (fst kv) \<noteq> None then config (cfg(fst kv \<mapsto> snd kv)) kwargs
      else (InvalidConfigKey (fst kv), cfg))"

section \<open>Notions used to state the properties\<close>

text \<open>
  The game as \<^verbatim>\<open>is_legal_move\<close> has it while it asks \<^verbatim>\<open>is_in_check\<close>: the piece \<open>p\<close>
  relocated on the board and, for a king, the cached king square moved with it.
\<close>

definition hypothetical :: "game \<Rightarrow> piece \<Rightarrow> pos \<Rightarrow> pos \<Rightarrow> game" where
  "hypothetical g p from_p to_p =
     (if kind p = King
      then update_king_position (g\<lparr>board := simulate_move g from_p to_p\<rparr>) (color p) to_p
      else g\<lparr>board := simulate_move g from_p to_p\<rparr>)"

text \<open>
  An illegal move request: no piece at the source, a piece of the wrong colour, a
  destination outside the piece's geometric candidates, or a move that leaves the mover's
  own king in check.
\<close>

definition illegal_request :: "game \<Rightarrow> pos \<Rightarrow> pos \<Rightarrow> bool" where
  "illegal_request g from_p to_p =
     (case get_piece g from_p of
        None \<Rightarrow> True
      | Some p \<Rightarrow>
          color p \<noteq> current_turn g
          \<or> to_p \<notin> set (possible_moves p from_p (board g))
          \<or> is_in_check (hypothetical g p from_p to_p) (color p))"

text \<open>
  The states a game object goes through: created by \<^verbatim>\<open>Game()\<close>, then any sequence of
  \<^verbatim>\<open>make_move\<close>, \<^verbatim>\<open>undo_move\<close> and \<^verbatim>\<open>new_game\<close> calls with any arguments.
\<close>

inductive reachable :: "game \<Rightarrow> bool" where
  reachable_init: "reachable initial_game"
| reachable_make_move:
    "reachable g \<Longrightarrow> reachable (snd (make_move g from_p to_p promotion_piece))"
| reachable_undo_move: "reachable g \<Longrightarrow> reachable (snd (undo_move g))"
| reachable_new_game: "reachable g \<Longrightarrow> reachable (new_game g)"

text \<open>The squares of the board that hold a king of colour \<open>c\<close>.\<close>

definition king_squares :: "game \<Rightarrow> color \<Rightarrow> pos list" where
  "king_squares g c =
     filter (\<lambda>sq. case board g sq of None \<Rightarrow> False | Some p \<Rightarrow> kind p = King \<and> color p = c)
       all_squares"

text \<open>
  The invariant behind the check-safety of legal moves. In a sound position every piece
  stands on a square of the board, each cached king square holds the king of its colour,
  no king stands anywhere else, and the side that has just moved is not in check. A
  sound game is in a sound position, its last recorded move (if any) is not a castling
  move, and undoing that move leads to a sound game again.
\<close>

definition position_ok :: "game \<Rightarrow> bool" where
  "position_ok g \<longleftrightarrow>
     (\<forall>sq p. board g sq = Some p \<longrightarrow> is_valid_position (fst sq) (snd sq))
     \<and> (\<forall>c. \<exists>p. board g (get_king_position g c) = Some p \<and> kind p = King \<and> color p = c)
     \<and> (\<forall>sq p. board g sq = Some p \<and> kind p = King \<longrightarrow> sq = get_king_position g (color p))
     \<and> \<not> is_in_check g (enemy_color (current_turn g))"

inductive sound_game :: "game \<Rightarrow> bool" where
  sound_start: "position_ok g \<Longrightarrow> move_history g = [] \<Longrightarrow> sound_game g"
| sound_step:
    "position_ok g \<Longrightarrow> move_history g \<noteq> [] \<Longrightarrow> \<not> is_castling (last (move_history g)) \<Longrightarrow>
       sound_game (snd (undo_move g)) \<Longrightarrow> sound_game g"

text \<open>Two games that agree on board, cached king squares, turn and history.\<close>

definition same_position :: "game \<Rightarrow> game \<Rightarrow> bool" where
  "same_position g g' \<longleftrightarrow>
     board g = board g' \<and> white_king_pos g = white_king_pos g'
     \<and> black_king_pos g = black_king_pos g' \<and> current_turn g = current_turn g'
     \<and> move_history g = move_history g'"

section \<open>Example positions\<close>

text \<open>
  White king e1, white rook a1, black king e8, white to move, 99 half-moves since the
  last pawn move or capture, all castling rights gone.
\<close>

definition rook_endgame :: game where
  "rook_endgame =
     \<lparr>current_turn = White, move_history = [],
      board = (((\<lambda>_. None)((7, 4) := Some \<lparr>pid = 0, kind = King, color = White\<rparr>))
                 ((7, 0) := Some \<lparr>pid = 1, kind = Rook, color = White\<rparr>))
                 ((0, 4) := Some \<lparr>pid = 2, kind = King, color = Black\<rparr>),
      game_state = ACTIVE, white_king_pos = (7, 4), black_king_pos = (0, 4),
      castling_rights = \<lparr>white_kingside = False, white_queenside = False,
                         black_kingside = False, black_queenside = False\<rparr>,
      en_passant_target = None, halfmove_clock = 99, fullmove_number = 80,
      has_moved = (\<lambda>_. True)\<rparr>"

text \<open>
  Scenario C of the specification: white king e1, white rook h1, f1 and g1 empty and
  not attacked, white castling rights intact, white to move.
\<close>

definition castling_position :: game where
  "castling_position =
     \<lparr>current_turn = White, move_history = [],
      board = (((\<lambda>_. None)((7, 4) := Some \<lparr>pid = 0, kind = King, color = White\<rparr>))
                 ((7, 7) := Some \<lparr>pid = 1, kind = Rook, color = White\<rparr>))
                 ((0, 4) := Some \<lparr>pid = 2, kind = King, color = Black\<rparr>),
      game_state = ACTIVE, white_king_pos = (7, 4), black_king_pos = (0, 4),
      castling_rights = \<lparr>white_kingside = True, white_queenside = True,
                         black_kingside = False, black_queenside = False\<rparr>,
      en_passant_target = None, halfmove_clock = 0, fullmove_number = 40,
      has_moved = (\<lambda>_. False)\<rparr>"

text \<open>White king e1, white pawn a7 with a8 empty, black king e8, white to move.\<close>

definition promotion_position :: game where
  "promotion_position =
     \<lparr>current_turn = White, move_history = [],
      board = (((\<lambda>_. None)((7, 4) := Some \<lparr>pid = 0, kind = King, color = White\<rparr>))
                 ((1, 0) := Some \<lparr>pid = 1, kind = Pawn, color = White\<rparr>))
                 ((0, 4) := Some \<lparr>pid = 2, kind = King, color = Black\<rparr>),
      game_state = ACTIVE, white_king_pos = (7, 4), black_king_pos = (0, 4),
      castling_rights = \<lparr>white_kingside = False, white_queenside = False,
                         black_kingside = False, black_queenside = False\<rparr>,
      en_passant_target = None, halfmove_clock = 0, fullmove_number = 50,
      has_moved = (\<lambda>_. True)\<rparr>"

section \<open>Frame properties of the legality filter\<close>

lemma update_king_position_restore:
  "update_king_position (update_king_position (g\<lparr>board := b\<rparr>) c k\<lparr>board := board g\<rparr>) c
      (get_king_position (g\<lparr>board := b\<rparr>) c) = g"
  by (simp add: update_king_position_def get_king_position_def)

lemma is_legal_move_state: "snd (is_legal_move g from_p to_p) = g"
  by (simp add: is_legal_move_def Let_def update_king_position_restore split: option.split)

lemma legal_moves_loop_state: "snd (legal_moves_loop g ms acc) = g"
  by (induction ms arbitrary: acc) (simp_all add: Let_def is_legal_move_state)

lemma get_legal_moves_state: "snd (get_legal_moves g c) = g"
  by (simp add: get_legal_moves_def legal_moves_loop_state)

lemma legal_moves_loop_filter:
  "fst (legal_moves_loop g ms acc)
     = acc @ filter (\<lambda>m. fst (is_legal_move g (fst m) (snd m))) ms"
  by (induction ms arbitrary: acc) (simp_all add: Let_def is_legal_move_state)

lemma get_legal_moves_filter:
  "fst (get_legal_moves g c)
     = filter (\<lambda>m. fst (is_legal_move g (fst m) (snd m))) (get_all_possible_moves g c)"
  by (simp add: get_legal_moves_def legal_moves_loop_filter)

lemma get_all_possible_moves_piece:
  "m \<in> set (get_all_possible_moves g c) \<Longrightarrow>
     \<exists>p. board g (fst m) = Some p \<and> color p = c \<and> snd m \<in> set (possible_moves p (fst m) (board g))"
  by (auto simp: get_all_possible_moves_def split: option.splits if_splits) (metis)

lemma is_legal_move_wrong_color:
  "board g from_p = Some p \<Longrightarrow> color p \<noteq> current_turn g \<Longrightarrow> \<not> fst (is_legal_move g from_p to_p)"
  by (simp add: is_legal_move_def get_piece_def)

lemma is_checkmate_state: "snd (is_checkmate g c) = g"
  by (simp add: is_checkmate_def Let_def get_legal_moves_state)

lemma is_stalemate_state: "snd (is_stalemate g c) = g"
  by (simp add: is_stalemate_def Let_def get_legal_moves_state)

section \<open>What an operation leaves unchanged\<close>

lemma update_game_state_eq:
  "update_game_state g = g\<lparr>game_state := game_state (update_game_state g)\<rparr>"
  by (simp add: update_game_state_def Let_def is_checkmate_state is_stalemate_state)

lemma update_game_state_fields:
  "board (update_game_state g) = board g"
  "current_turn (update_game_state g) = current_turn g"
  "move_history (update_game_state g) = move_history g"
  "white_king_pos (update_game_state g) = white_king_pos g"
  "black_king_pos (update_game_state g) = black_king_pos g"
  "castling_rights (update_game_state g) = castling_rights g"
  "en_passant_target (update_game_state g) = en_passant_target g"
  "halfmove_clock (update_game_state g) = halfmove_clock g"
  "fullmove_number (update_game_state g) = fullmove_number g"
  "has_moved (update_game_state g) = has_moved g"
  by (subst update_game_state_eq, simp)+

lemma clear_castling_right_fields:
  "board (clear_castling_right g c s) = board g"
  "current_turn (clear_castling_right g c s) = current_turn g"
  "move_history (clear_castling_right g c s) = move_history g"
  "white_king_pos (clear_castling_right g c s) = white_king_pos g"
  "black_king_pos (clear_castling_right g c s) = black_king_pos g"
  "halfmove_clock (clear_castling_right g c s) = halfmove_clock g"
  "fullmove_number (clear_castling_right g c s) = fullmove_number g"
  "has_moved (clear_castling_right g c s) = has_moved g"
  by (cases c; cases s; simp add: clear_castling_right_def)+

lemma castling_right_clear:
  "castling_right (clear_castling_right g c s) c' s' \<longleftrightarrow> castling_right g c' s' \<and> (c', s') \<noteq> (c, s)"
  by (cases c; cases s; cases c'; cases s'; simp add: clear_castling_right_def castling_right_def)

lemma update_castling_rights_fields:
  "board (update_castling_rights g p f) = board g"
  "current_turn (update_castling_rights g p f) = current_turn g"
  "move_history (update_castling_rights g p f) = move_history g"
  "white_king_pos (update_castling_rights g p f) = white_king_pos g"
  "black_king_pos (update_castling_rights g p f) = black_king_pos g"
  "halfmove_clock (update_castling_rights g p f) = halfmove_clock g"
  "fullmove_number (update_castling_rights g p f) = fullmove_number g"
  "has_moved (update_castling_rights g p f) = has_moved g"
  by (simp_all add: update_castling_rights_def clear_castling_right_fields)

lemma castling_right_update_castling_rights:
  "castling_right (update_castling_rights g p f) c s \<Longrightarrow> castling_right g c s"
  by (auto simp: update_castling_rights_def castling_right_clear split: if_splits)

lemma record_move_fields:
  "board (record_move g p mv) = board g"
  "current_turn (record_move g p mv) = (if current_turn g = White then Black else White)"
  "move_history (record_move g p mv) = move_history g @ [mv]"
  "white_king_pos (record_move g p mv) = white_king_pos g"
  "black_king_pos (record_move g p mv) = black_king_pos g"
  "halfmove_clock (record_move g p mv)
     = (if kind p = Pawn \<or> captured_piece mv \<noteq> None then 0 else halfmove_clock g + 1)"
  "fullmove_number (record_move g p mv)
     = (if current_turn g = Black then fullmove_number g + 1 else fullmove_number g)"
  "has_moved (record_move g p mv) = (has_moved g)(pid p := True)"
  "castling_rights (record_move g p mv) = castling_rights (update_castling_rights g p (from_pos mv))"
  by (simp_all add: record_move_def Let_def update_game_state_fields update_castling_rights_fields)

lemma castling_right_cong:
  "castling_rights g = castling_rights g' \<Longrightarrow> castling_right g c s = castling_right g' c s"
  by (cases c; cases s; simp add: castling_right_def)

lemma castling_right_record_move:
  "castling_right (record_move g p mv) c s \<Longrightarrow> castling_right g c s"
  using castling_right_update_castling_rights castling_right_cong [OF record_move_fields(9)]
  by blast

lemma update_king_position_fields:
  "board (update_king_position g c k) = board g"
  "current_turn (update_king_position g c k) = current_turn g"
  "move_history (update_king_position g c k) = move_history g"
  "castling_rights (update_king_position g c k) = castling_rights g"
  "halfmove_clock (update_king_position g c k) = halfmove_clock g"
  "fullmove_number (update_king_position g c k) = fullmove_number g"
  "has_moved (update_king_position g c k) = has_moved g"
  "get_king_position (update_king_position g c k) c' = (if c' = c then k else get_king_position g c')"
  by (cases c; cases c'; simp add: update_king_position_def get_king_position_def)+

lemma castling_rights_execute_castling:
  "castling_rights (execute_castling g c s)
     = castling_rights (clear_castling_right (clear_castling_right g c Kingside) c Queenside)"
  by (cases c; cases s;
      simp add: execute_castling_def Let_def clear_castling_right_def update_king_position_def)

lemma castling_right_execute_castling:
  "castling_right (execute_castling g c s) c' s' \<Longrightarrow> castling_right g c' s'"
  using castling_right_cong [OF castling_rights_execute_castling, of g c s c' s']
  by (simp add: castling_right_clear)

section \<open>Move geometry\<close>

declare line_moves.simps [simp del]

lemma line_moves_target:
  "t \<in> set (line_moves b c dr dc row col) \<Longrightarrow>
     is_valid_position (fst t) (snd t) \<and> (\<forall>q. b t = Some q \<longrightarrow> color q \<noteq> c)"
proof (induction b c dr dc row col rule: line_moves.induct)
  case (1 b c dr dc row col)
  show ?case
  proof (cases "\<not> is_valid_position (row + dr) (col + dc) \<or> (dr = 0 \<and> dc = 0)")
    case True
    with "1.prems" show ?thesis by (simp add: line_moves.simps)
  next
    case False
    show ?thesis
    proof (cases "b (row + dr, col + dc)")
      case None
      with False "1.prems" have "t = (row + dr, col + dc) \<or> t \<in> set (line_moves b c dr dc (row + dr) (col + dc))"
        by (subst (asm) line_moves.simps) auto
      then show ?thesis
      proof
        assume "t = (row + dr, col + dc)"
        with False None show ?thesis by simp
      next
        assume "t \<in> set (line_moves b c dr dc (row + dr) (col + dc))"
        with "1.IH" [OF False None] show ?thesis by simp
      qed
    next
      case (Some q)
      with False "1.prems" have "t = (row + dr, col + dc)" "color q \<noteq> c"
        by (subst (asm) line_moves.simps; auto split: if_splits)+
      with False Some show ?thesis by simp
    qed
  qed
qed

lemma get_line_moves_target:
  "t \<in> set (get_line_moves ds c f b) \<Longrightarrow>
     is_valid_position (fst t) (snd t) \<and> (\<forall>q. b t = Some q \<longrightarrow> color q \<noteq> c)"
  unfolding get_line_moves_def using line_moves_target by fastforce

lemma offset_moves_target:
  "t \<in> set (offset_moves ds c f b) \<Longrightarrow>
     is_valid_position (fst t) (snd t) \<and> (\<forall>q. b t = Some q \<longrightarrow> color q \<noteq> c)"
  by (auto simp: offset_moves_def is_empty_square_def is_enemy_piece_def)

lemma pawn_possible_moves_target:
  "t \<in> set (pawn_possible_moves c f b) \<Longrightarrow>
     is_valid_position (fst t) (snd t) \<and> (\<forall>q. b t = Some q \<longrightarrow> color q \<noteq> c)"
  by (auto simp: pawn_possible_moves_def Let_def is_empty_square_def is_enemy_piece_def
           split: if_splits)

lemma possible_moves_target:
  "t \<in> set (possible_moves p f b) \<Longrightarrow>
     is_valid_position (fst t) (snd t) \<and> (\<forall>q. b t = Some q \<longrightarrow> color q \<noteq> color p)"
  unfolding possible_moves_def
  using pawn_possible_moves_target offset_moves_target get_line_moves_target
  by (cases "kind p") simp_all

lemma king_moves_one_file:
  "t \<in> set (offset_moves king_directions c f b) \<Longrightarrow> \<bar>snd t - snd f\<bar> \<le> 1"
proof -
  assume "t \<in> set (offset_moves king_directions c f b)"
  then have "t \<in> set (map (\<lambda>d. (fst f + fst d, snd f + snd d)) king_directions)"
    by (simp add: offset_moves_def)
  then obtain d where d: "d \<in> set king_directions" and t: "t = (fst f + fst d, snd f + snd d)"
    by auto
  from d have "\<bar>snd d\<bar> \<le> 1" by (auto simp: king_directions_def)
  with t show ?thesis by simp
qed

lemma is_legal_move_Some:
  "board g f = Some p \<Longrightarrow>
   fst (is_legal_move g f t) \<longleftrightarrow>
     color p = current_turn g \<and> t \<in> set (possible_moves p f (board g))
       \<and> \<not> is_in_check (hypothetical g p f t) (color p)"
  by (simp add: is_legal_move_def get_piece_def hypothetical_def Let_def)

lemma is_legal_move_None: "board g f = None \<Longrightarrow> \<not> fst (is_legal_move g f t)"
  by (simp add: is_legal_move_def get_piece_def)

lemma is_legal_move_iff:
  "fst (is_legal_move g f t) \<longleftrightarrow>
     (\<exists>p. board g f = Some p \<and> color p = current_turn g
        \<and> t \<in> set (possible_moves p f (board g))
        \<and> \<not> is_in_check (hypothetical g p f t) (color p))"
  by (cases "board g f") (simp_all add: is_legal_move_Some is_legal_move_None)

lemma illegal_request_iff: "illegal_request g f t \<longleftrightarrow> \<not> fst (is_legal_move g f t)"
  by (cases "board g f")
     (simp_all add: illegal_request_def is_legal_move_Some is_legal_move_None get_piece_def)

section \<open>The two outcomes of make_move\<close>

lemma is_legal_move_eq: "is_legal_move g f t = (fst (is_legal_move g f t), g)"
  using is_legal_move_state [of g f t] by (cases "is_legal_move g f t") simp

lemma make_move_illegal:
  assumes "\<not> fst (is_legal_move g f t)"
  shows "make_move g f t pr = (Inr False, g)"
proof -
  have "is_legal_move g f t = (False, g)"
    using assms is_legal_move_eq [of g f t] by simp
  then show ?thesis
    by (simp only: make_move_def Let_def fst_conv snd_conv not_False_eq_True if_True)
qed

lemma hypothetical_board:
  "board g f = Some p \<Longrightarrow> board (hypothetical g p f t) = ((board g)(t := Some p))(f := None)"
  by (simp add: hypothetical_def simulate_move_def update_king_position_fields)

lemma hypothetical_alt:
  "board g f = Some p \<Longrightarrow>
     hypothetical g p f t =
       (if kind p = King
        then update_king_position (g\<lparr>board := ((board g)(t := Some p))(f := None)\<rparr>) (color p) t
        else g\<lparr>board := ((board g)(t := Some p))(f := None)\<rparr>)"
  by (simp add: hypothetical_def simulate_move_def)

lemma game_is_promotion_empty: "board g f = None \<Longrightarrow> \<not> game_is_promotion g f t"
  by (simp add: game_is_promotion_def get_piece_def)

lemma make_move_legal:
  assumes "fst (is_legal_move g f t)" and "board g f = Some p"
  shows "make_move g f t pr =
     (Inr True,
      record_move (hypothetical g p f t) p
        \<lparr>from_pos = f, to_pos = t, piece = p, captured_piece = board g t,
         is_castling = False, is_en_passant = False, is_promotion = False,
         promoted_to = None\<rparr>)"
proof -
  from assms have t: "t \<in> set (possible_moves p f (board g))"
    by (simp add: is_legal_move_Some)
  have nocastle: "(kind p = King \<and> \<bar>snd t - snd f\<bar> = 2) = False"
  proof -
    have False if k: "kind p = King" "\<bar>snd t - snd f\<bar> = 2"
    proof -
      from t k have "t \<in> set (offset_moves king_directions (color p) f (board g))"
        by (simp add: possible_moves_def)
      from king_moves_one_file [OF this] k show False by simp
    qed
    then show ?thesis by blast
  qed
  have empty: "board (hypothetical g p f t) f = None"
    by (simp add: hypothetical_board [OF assms(2)])
  have legal: "is_legal_move g f t = (True, g)"
    using assms(1) is_legal_move_eq [of g f t] by simp
  have "make_move g f t pr = finish_move
        (if kind p = King
         then update_king_position (g\<lparr>board := ((board g)(t := Some p))(f := None)\<rparr>) (color p) t
         else g\<lparr>board := ((board g)(t := Some p))(f := None)\<rparr>) p
        \<lparr>from_pos = f, to_pos = t, piece = p, captured_piece = board g t,
         is_castling = False, is_en_passant = False, is_promotion = False,
         promoted_to = None\<rparr> pr"
    by (simp only: make_move_def Let_def legal fst_conv snd_conv get_piece_def assms(2)
          option.case nocastle if_False if_True not_True_eq_False)
  then have "make_move g f t pr = finish_move (hypothetical g p f t) p
        \<lparr>from_pos = f, to_pos = t, piece = p, captured_piece = board g t,
         is_castling = False, is_en_passant = False, is_promotion = False,
         promoted_to = None\<rparr> pr"
    by (simp only: hypothetical_alt [OF assms(2)])
  moreover have "\<not> game_is_promotion (hypothetical g p f t) f t"
    by (rule game_is_promotion_empty [OF empty])
  ultimately show ?thesis
    by (simp add: finish_move_def)
qed

section \<open>Undoing a move\<close>

lemma hypothetical_fields:
  "current_turn (hypothetical g p f t) = current_turn g"
  "move_history (hypothetical g p f t) = move_history g"
  "castling_rights (hypothetical g p f t) = castling_rights g"
  "halfmove_clock (hypothetical g p f t) = halfmove_clock g"
  "fullmove_number (hypothetical g p f t) = fullmove_number g"
  "has_moved (hypothetical g p f t) = has_moved g"
  by (simp_all add: hypothetical_def update_king_position_fields)

lemma hypothetical_king_position:
  "get_king_position (hypothetical g p f t) c
     = (if kind p = King \<and> c = color p then t else get_king_position g c)"
  by (cases c; cases "color p";
      simp add: hypothetical_def update_king_position_def get_king_position_def)

lemma castling_right_make_move:
  assumes "castling_right (snd (make_move g f t pr)) c s"
  shows "castling_right g c s"
proof (cases "fst (is_legal_move g f t)")
  case False
  with assms show ?thesis by (simp add: make_move_illegal)
next
  case True
  then obtain p where p: "board g f = Some p"
    by (auto simp: is_legal_move_iff)
  from assms have "castling_right (hypothetical g p f t) c s"
    by (simp add: make_move_legal [OF True p] castling_right_record_move)
  then show ?thesis
    by (simp add: castling_right_cong [OF hypothetical_fields(3)])
qed

lemma undo_move_castling_rights: "castling_rights (snd (undo_move g)) = castling_rights g"
  by (simp add: undo_move_def Let_def update_game_state_fields update_king_position_fields)

lemma undo_move_empty: "move_history g = [] \<Longrightarrow> undo_move g = (Inr False, g)"
  by (simp add: undo_move_def)

lemma undo_move_fields:
  assumes "move_history g \<noteq> []" and "\<not> is_castling (last (move_history g))"
  shows "fst (undo_move g) = Inr True"
    and "board (snd (undo_move g))
          = ((board g)(from_pos (last (move_history g)) := Some (piece (last (move_history g)))))
              (to_pos (last (move_history g)) := captured_piece (last (move_history g)))"
    and "current_turn (snd (undo_move g)) = (if current_turn g = White then Black else White)"
    and "move_history (snd (undo_move g)) = butlast (move_history g)"
  using assms
  by (simp_all add: undo_move_def Let_def update_game_state_fields update_king_position_fields)

lemma get_king_position_cong:
  "white_king_pos g = white_king_pos g' \<Longrightarrow> black_king_pos g = black_king_pos g' \<Longrightarrow>
     get_king_position g c = get_king_position g' c"
  by (simp add: get_king_position_def)

lemma undo_move_king_position:
  assumes "move_history g \<noteq> []" and "\<not> is_castling (last (move_history g))"
  shows "get_king_position (snd (undo_move g)) c
          = (if kind (piece (last (move_history g))) = King
                \<and> c = color (piece (last (move_history g)))
             then from_pos (last (move_history g)) else get_king_position g c)"
proof -
  let ?m = "last (move_history g)"
  have "get_king_position (snd (undo_move g)) c
      = get_king_position (if kind (piece ?m) = King
           then update_king_position g (color (piece ?m)) (from_pos ?m) else g) c"
    using assms
    by (intro get_king_position_cong)
       (simp_all add: undo_move_def Let_def update_game_state_fields update_king_position_def)
  then show ?thesis
    by (simp add: update_king_position_fields)
qed

lemma undo_make_move:
  assumes "fst (make_move g f t pr) = Inr True"
  shows "fst (undo_move (snd (make_move g f t pr))) = Inr True"
    and "board (snd (undo_move (snd (make_move g f t pr)))) = board g"
    and "current_turn (snd (undo_move (snd (make_move g f t pr)))) = current_turn g"
    and "move_history (snd (undo_move (snd (make_move g f t pr)))) = move_history g"
    and "get_king_position (snd (undo_move (snd (make_move g f t pr)))) c
          = (if isinstance (board g f) King \<and> (\<exists>p. board g f = Some p \<and> c = color p)
             then f else get_king_position g c)"
proof -
  have legal: "fst (is_legal_move g f t)"
    using assms by (cases "fst (is_legal_move g f t)") (simp_all add: make_move_illegal)
  then obtain p where p: "board g f = Some p"
    by (auto simp: is_legal_move_iff)
  let ?mv = "\<lparr>from_pos = f, to_pos = t, piece = p, captured_piece = board g t,
         is_castling = False, is_en_passant = False, is_promotion = False,
         promoted_to = None\<rparr>"
  let ?g1 = "record_move (hypothetical g p f t) p ?mv"
  have g1: "snd (make_move g f t pr) = ?g1"
    by (simp add: make_move_legal [OF legal p])
  have h: "move_history ?g1 = move_history g @ [?mv]"
    by (simp add: record_move_fields hypothetical_fields)
  then have ne: "move_history ?g1 \<noteq> []" and last: "last (move_history ?g1) = ?mv"
    by simp_all
  have nc: "\<not> is_castling (last (move_history ?g1))"
    by (simp add: last)
  show "fst (undo_move (snd (make_move g f t pr))) = Inr True"
    unfolding g1 by (rule undo_move_fields(1) [OF ne nc])
  have "board (snd (undo_move ?g1)) = ((board ?g1)(f := Some p))(t := board g t)"
    unfolding undo_move_fields(2) [OF ne nc] last by simp
  also have "board ?g1 = ((board g)(t := Some p))(f := None)"
    by (simp add: record_move_fields hypothetical_board [OF p])
  also have "((((board g)(t := Some p))(f := None))(f := Some p))(t := board g t) = board g"
    using p by (auto simp: fun_eq_iff)
  finally show "board (snd (undo_move (snd (make_move g f t pr)))) = board g"
    unfolding g1 .
  show "current_turn (snd (undo_move (snd (make_move g f t pr)))) = current_turn g"
    unfolding g1 undo_move_fields(3) [OF ne nc]
    by (cases "current_turn g") (simp_all add: record_move_fields hypothetical_fields)
  show "move_history (snd (undo_move (snd (make_move g f t pr)))) = move_history g"
    unfolding g1 undo_move_fields(4) [OF ne nc] by (simp add: h)
  have kp: "get_king_position ?g1 c = get_king_position (hypothetical g p f t) c"
    by (simp add: get_king_position_def record_move_fields)
  show "get_king_position (snd (undo_move (snd (make_move g f t pr)))) c
          = (if isinstance (board g f) King \<and> (\<exists>p. board g f = Some p \<and> c = color p)
             then f else get_king_position g c)"
    unfolding g1 undo_move_king_position [OF ne nc] last
    by (simp add: kp hypothetical_king_position p isinstance_def)
qed

section \<open>Properties of the legality filter\<close>

text \<open>
  C8. A call to \<^verbatim>\<open>is_legal_move\<close>, and a call to \<^verbatim>\<open>get_legal_moves\<close>, leaves the game
  exactly as it found it: the board, both cached king squares, the turn, the counters,
  the castling rights, the move history and every other field are restored before the
  call returns.
\<close>

theorem is_legal_move_restores_state:
  "snd (is_legal_move g from_p to_p) = g \<and> snd (get_legal_moves g c) = g"
  by (simp add: is_legal_move_state get_legal_moves_state)

text \<open>
  C10. For a colour that is not the side to move, \<^verbatim>\<open>get_legal_moves\<close> returns the
  empty list: \<^verbatim>\<open>is_legal_move\<close> rejects every piece whose colour is not the current
  turn.
\<close>

theorem get_legal_moves_other_color:
  "c \<noteq> current_turn g \<Longrightarrow> fst (get_legal_moves g c) = []"
  unfolding get_legal_moves_filter filter_empty_conv
  using get_all_possible_moves_piece is_legal_move_wrong_color by blast

theorem get_legal_moves_other_color_witness:
  "Black \<noteq> current_turn initial_game \<and> fst (get_legal_moves initial_game Black) = []"
proof -
  have h: "Black \<noteq> current_turn initial_game"
    by (simp add: initial_game_def)
  show ?thesis
    by (rule conjI [OF h get_legal_moves_other_color [OF h]])
qed

text \<open>
  C2. An illegal move request (no piece at the source, a piece of the wrong colour, a
  destination outside the piece's geometric candidates, or a move that leaves the mover's
  own king in check) makes \<^verbatim>\<open>make_move\<close> return False and leaves the whole game
  unchanged: board, turn, castling rights, counters, cached king squares and history.
\<close>

theorem illegal_move_rejected:
  "illegal_request g from_p to_p \<Longrightarrow>
     make_move g from_p to_p promotion_piece = (Inr False, g)"
  by (simp add: illegal_request_iff make_move_illegal)

theorem illegal_move_rejected_witness:
  "illegal_request initial_game (7, 0) (5, 0)
   \<and> make_move initial_game (7, 0) (5, 0) ''queen'' = (Inr False, initial_game)"
proof -
  have h: "illegal_request initial_game (7, 0) (5, 0)"
    by code_simp
  show ?thesis
    by (rule conjI [OF h illegal_move_rejected [OF h]])
qed

section \<open>Castling rights and undo\<close>

text \<open>
  C7. Each of the four castling-rights flags only ever moves towards false: a flag that
  is false before a \<^verbatim>\<open>make_move\<close> or an \<^verbatim>\<open>undo_move\<close> is false after it, whatever the
  arguments and however the call ends.
\<close>

theorem castling_rights_monotone:
  "\<not> castling_right g c s \<Longrightarrow>
     \<not> castling_right (snd (make_move g from_p to_p promotion_piece)) c s
     \<and> \<not> castling_right (snd (undo_move g)) c s"
  using castling_right_make_move castling_right_cong [OF undo_move_castling_rights]
  by blast

theorem castling_rights_monotone_witness:
  "\<not> castling_right rook_endgame White Kingside
   \<and> \<not> castling_right (snd (make_move rook_endgame (7, 0) (6, 0) ''queen'')) White Kingside
   \<and> \<not> castling_right (snd (undo_move rook_endgame)) White Kingside"
proof -
  have h: "\<not> castling_right rook_endgame White Kingside"
    by (simp add: castling_right_def rook_endgame_def)
  show ?thesis
    by (rule conjI [OF h castling_rights_monotone [OF h]])
qed

text \<open>
  C5. A successful \<^verbatim>\<open>make_move\<close> followed at once by \<^verbatim>\<open>undo_move\<close>: the undo succeeds
  and the board (which piece stands on which square) and the turn are what they were
  before the move, and so is the move history. Nothing is claimed for the castling rights
  and the counters.
\<close>

theorem make_move_undo_move_roundtrip:
  "fst (make_move g from_p to_p promotion_piece) = Inr True \<Longrightarrow>
     fst (undo_move (snd (make_move g from_p to_p promotion_piece))) = Inr True
     \<and> board (snd (undo_move (snd (make_move g from_p to_p promotion_piece)))) = board g
     \<and> current_turn (snd (undo_move (snd (make_move g from_p to_p promotion_piece))))
         = current_turn g
     \<and> move_history (snd (undo_move (snd (make_move g from_p to_p promotion_piece))))
         = move_history g"
  by (simp add: undo_make_move)

theorem make_move_undo_move_roundtrip_witness:
  "fst (make_move initial_game (6, 4) (4, 4) ''queen'') = Inr True
   \<and> fst (undo_move (snd (make_move initial_game (6, 4) (4, 4) ''queen''))) = Inr True
   \<and> board (snd (undo_move (snd (make_move initial_game (6, 4) (4, 4) ''queen''))))
       = board initial_game
   \<and> current_turn (snd (undo_move (snd (make_move initial_game (6, 4) (4, 4) ''queen''))))
       = current_turn initial_game
   \<and> move_history (snd (undo_move (snd (make_move initial_game (6, 4) (4, 4) ''queen''))))
       = move_history initial_game"
proof -
  have h: "fst (make_move initial_game (6, 4) (4, 4) ''queen'') = Inr True"
    by code_simp
  show ?thesis
    by (rule conjI [OF h make_move_undo_move_roundtrip [OF h]])
qed

section \<open>Castling and promotion through make_move\<close>

text \<open>
  C3. In the position of Scenario C (white king e1, white rook h1, f1 and g1 empty and
  not attacked, white not in check, kingside right intact) \<^verbatim>\<open>can_castle\<close> holds, yet the
  two-file king move e1-g1 does not go through \<^verbatim>\<open>make_move\<close>: \<^verbatim>\<open>King.possible_moves\<close>
  only yields single steps, so \<^verbatim>\<open>is_legal_move\<close> rejects the move before the castling
  branch is reached, and \<^verbatim>\<open>make_move\<close> returns False with the game unchanged.
\<close>

theorem castling_move_rejected:
  "can_castle castling_position White Kingside
   \<and> make_move castling_position (7, 4) (7, 6) ''queen'' = (Inr False, castling_position)"
proof -
  have a: "can_castle castling_position White Kingside"
    by code_simp
  have "\<not> fst (is_legal_move castling_position (7, 4) (7, 6))"
    by code_simp
  from a make_move_illegal [OF this] show ?thesis by blast
qed

text \<open>
  C4. A white pawn on a7 moves to the empty square a8 with promotion choice queen:
  \<^verbatim>\<open>make_move\<close> returns True, but the piece on a8 is still the pawn and the recorded move
  carries no promotion flag and no promoted-to kind. \<^verbatim>\<open>make_move\<close> asks
  \<^verbatim>\<open>is_promotion\<close> after it has emptied the source square, so the answer is always no.
\<close>

theorem pawn_on_back_rank_not_promoted:
  "fst (make_move promotion_position (1, 0) (0, 0) ''queen'') = Inr True
   \<and> board (snd (make_move promotion_position (1, 0) (0, 0) ''queen'')) (0, 0)
       = Some \<lparr>pid = 1, kind = Pawn, color = White\<rparr>
   \<and> is_promotion (last (move_history (snd (make_move promotion_position (1, 0) (0, 0) ''queen''))))
       = False
   \<and> promoted_to (last (move_history (snd (make_move promotion_position (1, 0) (0, 0) ''queen''))))
       = None"
proof -
  define P where "P = \<lparr>pid = 1, kind = Pawn, color = White\<rparr>"
  have legal: "fst (is_legal_move promotion_position (1, 0) (0, 0))"
    by code_simp
  have p: "board promotion_position (1, 0) = Some P"
    by (simp add: promotion_position_def P_def)
  have b: "board (hypothetical promotion_position P (1, 0) (0, 0)) (0, 0) = Some P"
    by (simp add: hypothetical_board [OF p])
  show ?thesis
    unfolding make_move_legal [OF legal p] P_def [symmetric]
    by (simp add: record_move_fields b)
qed

section \<open>The fifty-move rule\<close>

lemma update_game_state_classify:
  "game_state (update_game_state g) =
     (if fst (is_checkmate g (current_turn g)) then CHECKMATE
      else if fst (is_stalemate g (current_turn g)) then STALEMATE
      else if is_in_check g (current_turn g) then CHECK
      else if halfmove_clock g \<ge> 100 then DRAW
      else ACTIVE)"
  by (simp add: update_game_state_def Let_def is_checkmate_state is_stalemate_state)

lemma is_in_check_cong:
  "board g = board g' \<Longrightarrow> white_king_pos g = white_king_pos g' \<Longrightarrow>
   black_king_pos g = black_king_pos g' \<Longrightarrow> is_in_check g c = is_in_check g' c"
  by (simp add: is_in_check_def is_square_under_attack_def get_king_position_def
        cong: option.case_cong)

lemma is_in_check_hypothetical_cong:
  assumes "board g = board g'" "white_king_pos g = white_king_pos g'"
    "black_king_pos g = black_king_pos g'"
  shows "is_in_check (hypothetical g p f t) c = is_in_check (hypothetical g' p f t) c"
  by (rule is_in_check_cong)
     (simp_all add: hypothetical_def simulate_move_def update_king_position_def assms)

lemma is_legal_move_cong:
  assumes "board g = board g'" "white_king_pos g = white_king_pos g'"
    "black_king_pos g = black_king_pos g'" "current_turn g = current_turn g'"
  shows "fst (is_legal_move g f t) = fst (is_legal_move g' f t)"
proof (cases "board g' f")
  case None
  then have "board g f = None" using assms(1) by simp
  with None show ?thesis by (simp add: is_legal_move_None)
next
  case (Some p)
  then have "board g f = Some p" using assms(1) by simp
  with Some show ?thesis
    by (simp add: is_legal_move_Some assms(4)
          is_in_check_hypothetical_cong [OF assms(1-3)])
       (simp add: assms(1))
qed

lemma get_legal_moves_cong:
  assumes "board g = board g'" "white_king_pos g = white_king_pos g'"
   "black_king_pos g = black_king_pos g'" "current_turn g = current_turn g'"
  shows "fst (get_legal_moves g c) = fst (get_legal_moves g' c)"
proof -
  have "get_all_possible_moves g c = get_all_possible_moves g' c"
    unfolding get_all_possible_moves_def assms(1) by (rule refl)
  moreover have "\<And>m. fst (is_legal_move g (fst m) (snd m)) = fst (is_legal_move g' (fst m) (snd m))"
    using assms by (rule is_legal_move_cong)
  ultimately show ?thesis
    by (simp add: get_legal_moves_filter)
qed

lemma is_checkmate_cong:
  assumes "board g = board g'" "white_king_pos g = white_king_pos g'"
   "black_king_pos g = black_king_pos g'" "current_turn g = current_turn g'"
  shows "fst (is_checkmate g c) = fst (is_checkmate g' c)"
  by (simp add: is_checkmate_def Let_def is_in_check_cong [OF assms(1-3)]
        get_legal_moves_cong [OF assms])

lemma is_stalemate_cong:
  assumes "board g = board g'" "white_king_pos g = white_king_pos g'"
   "black_king_pos g = black_king_pos g'" "current_turn g = current_turn g'"
  shows "fst (is_stalemate g c) = fst (is_stalemate g' c)"
  by (simp add: is_stalemate_def Let_def is_in_check_cong [OF assms(1-3)]
        get_legal_moves_cong [OF assms])

lemma update_game_state_classify_self:
  "game_state (update_game_state g) =
     (if fst (is_checkmate (update_game_state g) (current_turn g)) then CHECKMATE
      else if fst (is_stalemate (update_game_state g) (current_turn g)) then STALEMATE
      else if is_in_check (update_game_state g) (current_turn g) then CHECK
      else if halfmove_clock (update_game_state g) \<ge> 100 then DRAW
      else ACTIVE)"
proof -
  have "fst (is_checkmate (update_game_state g) c) = fst (is_checkmate g c)" for c
    by (rule is_checkmate_cong) (simp_all add: update_game_state_fields)
  moreover have "fst (is_stalemate (update_game_state g) c) = fst (is_stalemate g c)" for c
    by (rule is_stalemate_cong) (simp_all add: update_game_state_fields)
  moreover have "is_in_check (update_game_state g) c = is_in_check g c" for c
    by (rule is_in_check_cong) (simp_all add: update_game_state_fields)
  ultimately show ?thesis
    by (simp add: update_game_state_classify [of g] update_game_state_fields)
qed

lemma record_move_classify:
  "game_state (record_move g p mv) =
     (if fst (is_checkmate (record_move g p mv) (current_turn (record_move g p mv)))
      then CHECKMATE
      else if fst (is_stalemate (record_move g p mv) (current_turn (record_move g p mv)))
      then STALEMATE
      else if is_in_check (record_move g p mv) (current_turn (record_move g p mv)) then CHECK
      else if halfmove_clock (record_move g p mv) \<ge> 100 then DRAW
      else ACTIVE)"
  unfolding record_move_def Let_def
  by (subst update_game_state_classify_self) (simp add: update_game_state_fields)

text \<open>
  C6. After a successful \<^verbatim>\<open>make_move\<close>, when the half-move clock is at least 100 and
  the side now to move is neither checkmated nor stalemated, the recomputed game state is
  Draw unless that side is in check; when it is in check the state is Check.
\<close>

theorem fifty_move_draw_unless_check:
  assumes "fst (make_move g from_p to_p promotion_piece) = Inr True"
    and "g' = snd (make_move g from_p to_p promotion_piece)"
    and "halfmove_clock g' \<ge> 100"
    and "\<not> fst (is_checkmate g' (current_turn g'))"
    and "\<not> fst (is_stalemate g' (current_turn g'))"
  shows "game_state g' = (if is_in_check g' (current_turn g') then CHECK else DRAW)"
proof -
  have legal: "fst (is_legal_move g from_p to_p)"
    using assms(1)
    by (cases "fst (is_legal_move g from_p to_p)") (simp_all add: make_move_illegal)
  then obtain p where p: "board g from_p = Some p"
    by (auto simp: is_legal_move_iff)
  from assms(2) obtain h mv where g': "g' = record_move h p mv"
    by (simp add: make_move_legal [OF legal p])
  from assms(3-5) show ?thesis
    unfolding g' by (subst record_move_classify) simp
qed

text \<open>
  In the rook endgame with the clock at 99, the rook move a1-a8 gives check: the clock
  reaches 100, black is neither checkmated nor stalemated, and the state is not Draw.
\<close>

theorem fifty_move_draw_counterexample:
  "fst (make_move rook_endgame (7, 0) (0, 0) ''queen'') = Inr True
   \<and> halfmove_clock (snd (make_move rook_endgame (7, 0) (0, 0) ''queen'')) \<ge> 100
   \<and> \<not> fst (is_checkmate (snd (make_move rook_endgame (7, 0) (0, 0) ''queen''))
            (current_turn (snd (make_move rook_endgame (7, 0) (0, 0) ''queen''))))
   \<and> \<not> fst (is_stalemate (snd (make_move rook_endgame (7, 0) (0, 0) ''queen''))
            (current_turn (snd (make_move rook_endgame (7, 0) (0, 0) ''queen''))))
   \<and> game_state (snd (make_move rook_endgame (7, 0) (0, 0) ''queen'')) \<noteq> DRAW"
  by code_simp

theorem fifty_move_draw_unless_check_witness:
  "fst (make_move rook_endgame (7, 0) (6, 0) ''queen'') = Inr True
   \<and> halfmove_clock (snd (make_move rook_endgame (7, 0) (6, 0) ''queen'')) \<ge> 100
   \<and> \<not> fst (is_checkmate (snd (make_move rook_endgame (7, 0) (6, 0) ''queen''))
            (current_turn (snd (make_move rook_endgame (7, 0) (6, 0) ''queen''))))
   \<and> \<not> fst (is_stalemate (snd (make_move rook_endgame (7, 0) (6, 0) ''queen''))
            (current_turn (snd (make_move rook_endgame (7, 0) (6, 0) ''queen''))))
   \<and> game_state (snd (make_move rook_endgame (7, 0) (6, 0) ''queen''))
       = (if is_in_check (snd (make_move rook_endgame (7, 0) (6, 0) ''queen''))
               (current_turn (snd (make_move rook_endgame (7, 0) (6, 0) ''queen'')))
          then CHECK else DRAW)"
proof -
  let ?g' = "snd (make_move rook_endgame (7, 0) (6, 0) ''queen'')"
  have a: "fst (make_move rook_endgame (7, 0) (6, 0) ''queen'') = Inr True"
    by code_simp
  have b: "halfmove_clock ?g' \<ge> 100"
    by code_simp
  have c: "\<not> fst (is_checkmate ?g' (current_turn ?g'))"
    by code_simp
  have d: "\<not> fst (is_stalemate ?g' (current_turn ?g'))"
    by code_simp
  from fifty_move_draw_unless_check [OF a refl b c d] a b c d show ?thesis
    by blast
qed

section \<open>Configuration keys\<close>

lemma map_add_upd_rev:
  "m(k \<mapsto> v) ++ map_of (rev xs) = m ++ map_of (rev ((k, v) # xs))"
  by (rule ext) (simp add: map_of_append map_add_def split: option.split)

lemma config_all_recognized:
  "\<forall>kv \<in> set kwargs. cfg (fst kv) \<noteq> None \<Longrightarrow>
     config cfg kwargs = (Returned, cfg ++ map_of (rev kwargs))"
proof (induction kwargs arbitrary: cfg)
  case Nil
  then show ?case by simp
next
  case (Cons kv kwargs)
  have "\<forall>kv' \<in> set kwargs. (cfg(fst kv \<mapsto> snd kv)) (fst kv') \<noteq> None"
    using Cons.prems by simp
  then have ih: "config (cfg(fst kv \<mapsto> snd kv)) kwargs
      = (Returned, cfg(fst kv \<mapsto> snd kv) ++ map_of (rev kwargs))"
    by (rule Cons.IH)
  have "config cfg (kv # kwargs) = config (cfg(fst kv \<mapsto> snd kv)) kwargs"
    using Cons.prems by simp
  also note ih
  also have "cfg(fst kv \<mapsto> snd kv) ++ map_of (rev kwargs) = cfg ++ map_of (rev (kv # kwargs))"
    using map_add_upd_rev [of cfg "fst kv" "snd kv" kwargs] by simp
  finally show ?case .
qed

lemma config_first_unrecognized:
  assumes "\<forall>kv \<in> set before. cfg (fst kv) \<noteq> None" and "cfg key = None"
  shows "config cfg (before @ (key, v) # rest)
           = (InvalidConfigKey key, cfg ++ map_of (rev before))"
  using assms
proof (induction before arbitrary: cfg)
  case Nil
  then show ?case by simp
next
  case (Cons kv before)
  have a: "\<forall>kv' \<in> set before. (cfg(fst kv \<mapsto> snd kv)) (fst kv') \<noteq> None"
    using Cons.prems by simp
  have b: "(cfg(fst kv \<mapsto> snd kv)) key = None"
    using Cons.prems by auto
  have "config cfg ((kv # before) @ (key, v) # rest)
      = config (cfg(fst kv \<mapsto> snd kv)) (before @ (key, v) # rest)"
    using Cons.prems by simp
  also note Cons.IH [OF a b]
  also have "cfg(fst kv \<mapsto> snd kv) ++ map_of (rev before) = cfg ++ map_of (rev (kv # before))"
    using map_add_upd_rev [of cfg "fst kv" "snd kv" before] by simp
  finally show ?case .
qed

text \<open>
  C9. When some supplied key is not a key of the configuration, \<^verbatim>\<open>config\<close> raises
  \<^verbatim>\<open>KeyError\<close> for the first such key: the key is not silently ignored. The keys
  supplied before it are recognized and have been stored by then; the configuration is
  the prior one with exactly these entries overwritten, and so is unchanged when the
  first supplied key is the unrecognized one.
\<close>

theorem config_unrecognized_key:
  assumes "\<exists>kv \<in> set kwargs. cfg (fst kv) = None"
  shows "\<exists>before key v rest.
           kwargs = before @ (key, v) # rest
           \<and> (\<forall>kv \<in> set before. cfg (fst kv) \<noteq> None) \<and> cfg key = None
           \<and> fst (config cfg kwargs) = InvalidConfigKey key
           \<and> snd (config cfg kwargs) = cfg ++ map_of (rev before)"
proof -
  from assms obtain before kv rest where
    split: "kwargs = before @ kv # rest" "cfg (fst kv) = None"
      "\<forall>kv' \<in> set before. cfg (fst kv') \<noteq> None"
    by (auto simp: split_list_first_prop_iff)
  obtain key v where kv: "kv = (key, v)" by (cases kv)
  have "config cfg kwargs = (InvalidConfigKey key, cfg ++ map_of (rev before))"
    unfolding split(1) kv
    using split(2,3) by (intro config_first_unrecognized) (simp_all add: kv)
  with split kv show ?thesis by auto
qed

text \<open>
  \<^verbatim>\<open>config(depth=12, foo=1)\<close> on the default configuration raises for \<^verbatim>\<open>foo\<close>, and
  the stored depth is 12 afterwards.
\<close>

theorem config_unrecognized_key_counterexample:
  "(''foo'', 1) \<in> set [(''depth'', 12), (''foo'', 1)]
   \<and> DeepCore_init (10 :: int) 2 1 60 0 ''foo'' = None
   \<and> fst (config (DeepCore_init (10 :: int) 2 1 60 0) [(''depth'', 12), (''foo'', 1)])
       = InvalidConfigKey ''foo''
   \<and> snd (config (DeepCore_init (10 :: int) 2 1 60 0) [(''depth'', 12), (''foo'', 1)])
       \<noteq> DeepCore_init 10 2 1 60 0"
proof -
  have "snd (config (DeepCore_init (10 :: int) 2 1 60 0) [(''depth'', 12), (''foo'', 1)]) ''depth''
      \<noteq> DeepCore_init 10 2 1 60 0 ''depth''"
    by (simp add: DeepCore_init_def)
  then have "snd (config (DeepCore_init (10 :: int) 2 1 60 0) [(''depth'', 12), (''foo'', 1)])
       \<noteq> DeepCore_init 10 2 1 60 0"
    by metis
  then show ?thesis
    by (simp add: DeepCore_init_def)
qed

theorem config_unrecognized_key_witness:
  "(\<exists>kv \<in> set [(''depth'', 12), (''foo'', 1)]. DeepCore_init (10 :: int) 2 1 60 0 (fst kv) = None)
   \<and> (\<exists>before key v rest.
           [(''depth'', 12), (''foo'', 1)] = before @ (key, v) # rest
           \<and> (\<forall>kv \<in> set before. DeepCore_init (10 :: int) 2 1 60 0 (fst kv) \<noteq> None)
           \<and> DeepCore_init (10 :: int) 2 1 60 0 key = None
           \<and> fst (config (DeepCore_init (10 :: int) 2 1 60 0) [(''depth'', 12), (''foo'', 1)])
               = InvalidConfigKey key
           \<and> snd (config (DeepCore_init (10 :: int) 2 1 60 0) [(''depth'', 12), (''foo'', 1)])
               = DeepCore_init 10 2 1 60 0 ++ map_of (rev before))"
proof -
  have h: "\<exists>kv \<in> set [(''depth'', 12), (''foo'', 1)].
             DeepCore_init (10 :: int) 2 1 60 0 (fst kv) = None"
    by (simp add: DeepCore_init_def)
  show ?thesis
    by (rule conjI [OF h config_unrecognized_key [OF h]])
qed

section \<open>Sound positions and reachable games\<close>

lemma all_squares_iff: "sq \<in> set all_squares \<longleftrightarrow> is_valid_position (fst sq) (snd sq)"
  by (cases sq) (auto simp: all_squares_def is_valid_position_def BOARD_SIZE_def image_iff)

lemma distinct_all_squares: "distinct all_squares"
  by code_simp

lemma filter_single:
  assumes "distinct xs" and "k \<in> set xs" and "P k"
    and "\<forall>x \<in> set xs. P x \<longrightarrow> x = k"
  shows "filter P xs = [k]"
  using assms
proof (induction xs)
  case Nil
  then show ?case by simp
next
  case (Cons x xs)
  show ?case
  proof (cases "x = k")
    case True
    have "k \<notin> set xs" using Cons.prems(1) True by simp
    then have "\<forall>y \<in> set xs. \<not> P y" using Cons.prems(4) by fastforce
    then have "filter P xs = []" by (simp add: filter_empty_conv)
    with True Cons.prems(3) show ?thesis by simp
  next
    case False
    have "\<not> P x" using Cons.prems(4) False by simp
    moreover have "filter P xs = [k]"
    proof (rule Cons.IH)
      show "distinct xs" using Cons.prems(1) by simp
      show "k \<in> set xs" using Cons.prems(2) False by simp
      show "P k" by (rule Cons.prems(3))
      show "\<forall>x \<in> set xs. P x \<longrightarrow> x = k" using Cons.prems(4) by simp
    qed
    ultimately show ?thesis by simp
  qed
qed

lemma is_square_under_attack_intro:
  assumes "board g sq = Some p" and "is_valid_position (fst sq) (snd sq)"
    and "color p = by_color" and "position \<in> set (possible_moves p sq (board g))"
  shows "is_square_under_attack g position by_color"
  unfolding is_square_under_attack_def list_ex_iff
  using assms by (intro bexI [of _ sq]) (simp_all add: all_squares_iff)

lemma enemy_color_enemy_color: "enemy_color (enemy_color c) = c"
  by (cases c) (simp_all add: enemy_color_def)

lemma enemy_color_neq: "enemy_color c \<noteq> c"
  by (cases c) (simp_all add: enemy_color_def)

lemma position_ok_cong:
  assumes "board g = board g'" "white_king_pos g = white_king_pos g'"
    "black_king_pos g = black_king_pos g'" "current_turn g = current_turn g'"
  shows "position_ok g = position_ok g'"
  unfolding position_ok_def get_king_position_cong [OF assms(2,3)]
    is_in_check_cong [OF assms(1-3)] assms(1,4)
  by (rule refl)

lemma king_pos_get:
  "white_king_pos g = get_king_position g White"
  "black_king_pos g = get_king_position g Black"
  by (simp_all add: get_king_position_def)

lemma all_color: "(\<forall>c. P c) \<longleftrightarrow> P White \<and> P Black"
proof
  assume "\<forall>c. P c"
  then show "P White \<and> P Black" by simp
next
  assume a: "P White \<and> P Black"
  show "\<forall>c. P c"
  proof
    fix c
    from a show "P c" by (cases c) simp_all
  qed
qed

lemma same_position_iff:
  "same_position g g' \<longleftrightarrow>
     board g = board g' \<and> (\<forall>c. get_king_position g c = get_king_position g' c)
     \<and> current_turn g = current_turn g' \<and> move_history g = move_history g'"
  unfolding same_position_def king_pos_get all_color [of "\<lambda>c. get_king_position g c = get_king_position g' c"]
  by blast



lemma undo_move_same_position:
  assumes "same_position g g'" and "move_history g \<noteq> []"
    and "\<not> is_castling (last (move_history g))"
  shows "same_position (snd (undo_move g)) (snd (undo_move g'))"
proof -
  from assms have ne: "move_history g' \<noteq> []" and nc: "\<not> is_castling (last (move_history g'))"
    by (simp_all add: same_position_def)
  from assms(1) show ?thesis
    unfolding same_position_iff undo_move_fields [OF assms(2,3)] undo_move_fields [OF ne nc]
      undo_move_king_position [OF assms(2,3)] undo_move_king_position [OF ne nc]
    by simp
qed


lemma sound_game_cong:
  "sound_game g \<Longrightarrow> same_position g g' \<Longrightarrow> sound_game g'"
proof (induction arbitrary: g' rule: sound_game.induct)
  case (sound_start g)
  then have "position_ok g'" "move_history g' = []"
    using position_ok_cong [of g g'] by (simp_all add: same_position_def)
  then show ?case by (rule sound_game.sound_start)
next
  case (sound_step g)
  then have "position_ok g'" "move_history g' \<noteq> []" "\<not> is_castling (last (move_history g'))"
    using position_ok_cong [of g g'] by (auto simp: same_position_def)
  moreover have "sound_game (snd (undo_move g'))"
    using sound_step.IH undo_move_same_position [OF sound_step.prems sound_step.hyps(2,3)]
    by blast
  ultimately show ?case by (rule sound_game.sound_step)
qed

lemma sound_game_position_ok: "sound_game g \<Longrightarrow> position_ok g"
  by (erule sound_game.cases) simp_all

lemma piece_order_King: "c < 8 \<Longrightarrow> piece_order ! c = King \<longleftrightarrow> c = 4"
proof -
  assume "c < 8"
  then have "c \<in> {0, 1, 2, 3, 4, 5, 6, 7}" by auto
  then show ?thesis by (auto simp: piece_order_def)
qed

lemma create_board_valid:
  "create_board sq = Some p \<Longrightarrow> is_valid_position (fst sq) (snd sq)"
  by (cases sq) (simp add: create_board_def split: if_splits)

lemma create_board_King:
  assumes "create_board sq = Some p" and "kind p = King"
  shows "sq = (if color p = White then (7, 4) else (0, 4))"
proof -
  obtain row col where sq: "sq = (row, col)" by (cases sq)
  from assms(1) have v: "0 \<le> col" "col < 8"
    using create_board_valid [OF assms(1)] by (simp_all add: sq is_valid_position_def BOARD_SIZE_def)
  then have n: "nat col < 8" by simp
  from assms v show ?thesis
    unfolding sq create_board_def
    by (auto simp: piece_order_King [OF n] split: if_splits)
qed

lemma position_ok_initial_game: "position_ok initial_game"
proof -
  have a: "\<forall>sq p. board initial_game sq = Some p \<longrightarrow> is_valid_position (fst sq) (snd sq)"
    using create_board_valid by (simp add: initial_game_def)
  have b: "\<exists>p. board initial_game (get_king_position initial_game c) = Some p
             \<and> kind p = King \<and> color p = c" for c
    by (cases c)
       (simp_all add: initial_game_def get_king_position_def create_board_def
          is_valid_position_def BOARD_SIZE_def piece_order_def)
  have c: "\<forall>sq p. board initial_game sq = Some p \<and> kind p = King
             \<longrightarrow> sq = get_king_position initial_game (color p)"
  proof (intro allI impI)
    fix sq p
    assume "board initial_game sq = Some p \<and> kind p = King"
    then have "create_board sq = Some p" "kind p = King"
      by (simp_all add: initial_game_def)
    from create_board_King [OF this] show "sq = get_king_position initial_game (color p)"
      by (simp add: initial_game_def get_king_position_def)
  qed
  have d: "\<not> is_in_check initial_game (enemy_color (current_turn initial_game))"
    by code_simp
  from a b c d show ?thesis
    unfolding position_ok_def by blast
qed

lemma sound_game_initial_game: "sound_game initial_game"
  by (rule sound_start [OF position_ok_initial_game]) (simp add: initial_game_def)

lemma flip_turn: "(if c = White then Black else White) = enemy_color c"
  by (simp add: enemy_color_def)

lemma position_ok_after_move:
  assumes ok: "position_ok g" and legal: "fst (is_legal_move g f t)"
    and p: "board g f = Some p"
    and b': "board g' = ((board g)(t := Some p))(f := None)"
    and k': "\<And>c. get_king_position g' c
              = (if kind p = King \<and> c = color p then t else get_king_position g c)"
    and t': "current_turn g' = enemy_color (current_turn g)"
    and c': "is_in_check g' (current_turn g) = is_in_check (hypothetical g p f t) (color p)"
  shows "position_ok g'"
proof -
  from legal have "color p = current_turn g \<and> t \<in> set (possible_moves p f (board g))
      \<and> \<not> is_in_check (hypothetical g p f t) (color p)"
    unfolding is_legal_move_Some [OF p] .
  then have col: "color p = current_turn g"
    and t: "t \<in> set (possible_moves p f (board g))"
    and safe: "\<not> is_in_check (hypothetical g p f t) (color p)"
    by blast+
  from ok have valid: "\<And>sq q. board g sq = Some q \<Longrightarrow> is_valid_position (fst sq) (snd sq)"
    and king: "\<And>c. \<exists>q. board g (get_king_position g c) = Some q \<and> kind q = King \<and> color q = c"
    and only: "\<And>sq q. board g sq = Some q \<Longrightarrow> kind q = King \<Longrightarrow> sq = get_king_position g (color q)"
    and quiet: "\<not> is_in_check g (enemy_color (current_turn g))"
    unfolding position_ok_def by blast+
  from possible_moves_target [OF t]
  have tv: "is_valid_position (fst t) (snd t)"
    and tc: "\<And>q. board g t = Some q \<Longrightarrow> color q \<noteq> color p"
    by blast+
  have tf: "t \<noteq> f" using tc [of p] p by auto
  have fv: "is_valid_position (fst f) (snd f)" by (rule valid [OF p])
  have nocap: "t \<noteq> get_king_position g (enemy_color (current_turn g))"
  proof
    assume "t = get_king_position g (enemy_color (current_turn g))"
    with t have "is_square_under_attack g
        (get_king_position g (enemy_color (current_turn g))) (current_turn g)"
      by (intro is_square_under_attack_intro [OF p fv col]) simp
    with quiet show False
      by (simp add: is_in_check_def enemy_color_enemy_color)
  qed
  have 1: "\<forall>sq q. board g' sq = Some q \<longrightarrow> is_valid_position (fst sq) (snd sq)"
    using valid tv by (auto simp: b' split: if_splits)
  have 2: "\<exists>q. board g' (get_king_position g' c) = Some q \<and> kind q = King \<and> color q = c" for c
  proof (cases "kind p = King \<and> c = color p")
    case True
    with tf show ?thesis by (simp add: k' b')
  next
    case False
    from king [of c] obtain q where q: "board g (get_king_position g c) = Some q"
      "kind q = King" "color q = c" by blast
    have "get_king_position g c \<noteq> f"
    proof
      assume e: "get_king_position g c = f"
      with q p have "q = p" by simp
      with q False show False by simp
    qed
    moreover have "get_king_position g c \<noteq> t"
    proof (cases "c = current_turn g")
      case True
      show ?thesis
      proof
        assume "get_king_position g c = t"
        with q have "board g t = Some q" by simp
        from tc [OF this] q(3) True col show False by simp
      qed
    next
      case False
      then have "c = enemy_color (current_turn g)"
        by (cases c; cases "current_turn g") (simp_all add: enemy_color_def)
      with nocap show ?thesis by simp
    qed
    moreover have "get_king_position g' c = get_king_position g c"
      using False k' [of c] by presburger
    ultimately have "board g' (get_king_position g' c) = Some q"
      using q(1) by (simp add: b')
    with q(2,3) show ?thesis by blast
  qed
  have 3: "\<forall>sq q. board g' sq = Some q \<and> kind q = King \<longrightarrow> sq = get_king_position g' (color q)"
  proof (intro allI impI)
    fix sq q
    assume a: "board g' sq = Some q \<and> kind q = King"
    show "sq = get_king_position g' (color q)"
    proof (cases "sq = t")
      case True
      with a tf have "q = p" by (simp add: b')
      with a True show ?thesis by (simp add: k')
    next
      case False
      with a have sf: "sq \<noteq> f" and q: "board g sq = Some q" "kind q = King"
        by (auto simp: b' split: if_splits)
      from only [OF q] have e: "sq = get_king_position g (color q)" .
      show ?thesis
      proof (cases "kind p = King \<and> color q = color p")
        case True
        with only [OF p] have "f = get_king_position g (color q)" by simp
        with e sf show ?thesis by simp
      next
        case False
        then have "get_king_position g' (color q) = get_king_position g (color q)"
          using k' [of "color q"] by presburger
        with e show ?thesis by simp
      qed
    qed
  qed
  have 4: "\<not> is_in_check g' (enemy_color (current_turn g'))"
    using safe by (simp add: t' enemy_color_enemy_color c')
  from 1 2 3 4 show ?thesis
    unfolding position_ok_def by blast
qed

lemma sound_game_make_move:
  assumes sound: "sound_game g"
  shows "sound_game (snd (make_move g f t pr))"
proof (cases "fst (is_legal_move g f t)")
  case False
  with sound show ?thesis by (simp add: make_move_illegal)
next
  case True
  then obtain p where p: "board g f = Some p"
    by (auto simp: is_legal_move_iff)
  let ?mv = "\<lparr>from_pos = f, to_pos = t, piece = p, captured_piece = board g t,
         is_castling = False, is_en_passant = False, is_promotion = False,
         promoted_to = None\<rparr>"
  let ?g1 = "record_move (hypothetical g p f t) p ?mv"
  have mm: "make_move g f t pr = (Inr True, ?g1)"
    by (rule make_move_legal [OF True p])
  have ok: "position_ok g" by (rule sound_game_position_ok [OF sound])
  from True have col: "color p = current_turn g"
    unfolding is_legal_move_Some [OF p] by blast
  have kp: "get_king_position ?g1 c = get_king_position (hypothetical g p f t) c" for c
    by (rule get_king_position_cong) (simp_all add: record_move_fields)
  have "position_ok ?g1"
  proof (rule position_ok_after_move [OF ok True p])
    show "board ?g1 = ((board g)(t := Some p))(f := None)"
      by (simp add: record_move_fields hypothetical_board [OF p])
    show "get_king_position ?g1 c
            = (if kind p = King \<and> c = color p then t else get_king_position g c)" for c
      unfolding kp by (rule hypothetical_king_position)
    show "current_turn ?g1 = enemy_color (current_turn g)"
      by (simp add: record_move_fields hypothetical_fields enemy_color_def)
    show "is_in_check ?g1 (current_turn g) = is_in_check (hypothetical g p f t) (color p)"
      unfolding col by (rule is_in_check_cong) (simp_all add: record_move_fields)
  qed
  moreover have h: "move_history ?g1 = move_history g @ [?mv]"
    by (simp add: record_move_fields hypothetical_fields)
  then have "move_history ?g1 \<noteq> []" "\<not> is_castling (last (move_history ?g1))"
    by simp_all
  moreover have "sound_game (snd (undo_move ?g1))"
  proof (rule sound_game_cong [OF sound])
    have s: "fst (make_move g f t pr) = Inr True" by (simp add: mm)
    have only: "kind p = King \<Longrightarrow> f = get_king_position g (color p)"
      using ok p unfolding position_ok_def by blast
    have "get_king_position (snd (undo_move (snd (make_move g f t pr)))) c
        = get_king_position g c" for c
      unfolding undo_make_move(5) [OF s] using only p by (auto simp: isinstance_def)
    then have "same_position g (snd (undo_move (snd (make_move g f t pr))))"
      unfolding same_position_iff by (simp add: undo_make_move [OF s])
    then show "same_position g (snd (undo_move ?g1))"
      by (simp add: mm)
  qed
  ultimately have "sound_game ?g1" by (rule sound_step)
  then show ?thesis by (simp add: mm)
qed

lemma sound_game_undo_move:
  assumes "sound_game g"
  shows "sound_game (snd (undo_move g))"
  using assms
proof (cases rule: sound_game.cases)
  case sound_start
  with assms show ?thesis by (simp add: undo_move_empty)
next
  case sound_step
  then show ?thesis by simp
qed

lemma reachable_sound_game: "reachable g \<Longrightarrow> sound_game g"
proof (induction rule: reachable.induct)
  case reachable_init
  show ?case by (rule sound_game_initial_game)
next
  case (reachable_make_move g from_p to_p promotion_piece)
  then show ?case by (simp add: sound_game_make_move)
next
  case (reachable_undo_move g)
  then show ?case by (simp add: sound_game_undo_move)
next
  case (reachable_new_game g)
  show ?case by (simp add: new_game_def sound_game_initial_game)
qed

lemma king_squares_single:
  assumes "position_ok g"
  shows "king_squares g c = [get_king_position g c]"
  unfolding king_squares_def
proof (rule filter_single [OF distinct_all_squares])
  from assms obtain q where q: "board g (get_king_position g c) = Some q"
    "kind q = King" "color q = c"
    unfolding position_ok_def by blast
  from assms q(1) have "is_valid_position (fst (get_king_position g c)) (snd (get_king_position g c))"
    unfolding position_ok_def by blast
  then show "get_king_position g c \<in> set all_squares"
    by (simp add: all_squares_iff)
  show "case board g (get_king_position g c) of None \<Rightarrow> False
        | Some p \<Rightarrow> kind p = King \<and> color p = c"
    by (simp add: q)
  show "\<forall>x\<in>set all_squares.
       (case board g x of None \<Rightarrow> False | Some p \<Rightarrow> kind p = King \<and> color p = c)
       \<longrightarrow> x = get_king_position g c"
    using assms unfolding position_ok_def by (auto split: option.splits)
qed

text \<open>
  C1. In every reachable game, a move that \<^verbatim>\<open>get_legal_moves\<close> returns for the side to
  move can be made, and on the resulting board the king of the side that moved (there is
  exactly one square holding it) is not attacked by any piece of the other colour.
\<close>

theorem legal_moves_are_check_safe:
  assumes "reachable g"
    and "(from_p, to_p) \<in> set (fst (get_legal_moves g (current_turn g)))"
    and "g' = snd (make_move g from_p to_p promotion_piece)"
  shows "fst (make_move g from_p to_p promotion_piece) = Inr True
    \<and> (\<exists>k. king_squares g' (current_turn g) = [k]
          \<and> \<not> is_square_under_attack g' k (enemy_color (current_turn g)))"
proof -
  from assms(2) have legal: "fst (is_legal_move g from_p to_p)"
    by (simp add: get_legal_moves_filter)
  then obtain p where p: "board g from_p = Some p"
    by (auto simp: is_legal_move_iff)
  have "sound_game g'"
    unfolding assms(3) by (rule sound_game_make_move [OF reachable_sound_game [OF assms(1)]])
  then have ok: "position_ok g'" by (rule sound_game_position_ok)
  have turn: "current_turn g' = enemy_color (current_turn g)"
    unfolding assms(3)
    by (simp add: make_move_legal [OF legal p] record_move_fields hypothetical_fields
          enemy_color_def)
  from ok have "\<not> is_in_check g' (current_turn g)"
    unfolding position_ok_def turn enemy_color_enemy_color by blast
  then have "\<not> is_square_under_attack g' (get_king_position g' (current_turn g))
      (enemy_color (current_turn g))"
    by (simp add: is_in_check_def)
  with king_squares_single [OF ok] make_move_legal [OF legal p] show ?thesis
    by simp
qed

theorem legal_moves_are_check_safe_witness:
  "reachable initial_game
   \<and> ((6, 4), (4, 4)) \<in> set (fst (get_legal_moves initial_game (current_turn initial_game)))
   \<and> fst (make_move initial_game (6, 4) (4, 4) ''queen'') = Inr True
   \<and> (\<exists>k. king_squares (snd (make_move initial_game (6, 4) (4, 4) ''queen''))
               (current_turn initial_game) = [k]
          \<and> \<not> is_square_under_attack (snd (make_move initial_game (6, 4) (4, 4) ''queen'')) k
                (enemy_color (current_turn initial_game)))"
proof -
  have a: "reachable initial_game" by (rule reachable_init)
  have b: "((6, 4), (4, 4)) \<in> set (fst (get_legal_moves initial_game (current_turn initial_game)))"
    by code_simp
  from legal_moves_are_check_safe [OF a b refl] a b show ?thesis
    by blast
qed

end
